theory Spec2Isabelle
  imports Main "HOL-Library.Word" "HOL-Library.Multiset" "HOL-Library.Sublist" "HOL-Library.AList"
begin

section \<open>Values, types and the decoder\<close>

text \<open>
  The values \<^verbatim>\<open>json.loads\<close> produces, which are also the values a NetBox custom field
  holds: \<^verbatim>\<open>None\<close>, \<^verbatim>\<open>bool\<close>, \<^verbatim>\<open>int\<close>, \<^verbatim>\<open>float\<close> (its 64 bits), \<^verbatim>\<open>str\<close>,
  \<^verbatim>\<open>list\<close> and \<^verbatim>\<open>dict\<close> (an association list, in insertion order).
\<close>

datatype json =
    JNull
  | JBool bool
  | JInt int
  | JFloat "64 word"
  | JStr string
  | JArr "json list"
  | JObj "(string \<times> json) list"

text \<open>The type objects that \<^verbatim>\<open>isinstance\<close> is asked about.\<close>

datatype jtype = TNone | TBool | TInt | TFloat | TStr | TList | TDict

text \<open>
  \<^verbatim>\<open>isinstance(v, t)\<close> for one type object; \<^verbatim>\<open>bool\<close> is a subclass of \<^verbatim>\<open>int\<close> in Python.
\<close>

fun instance_of :: "json \<Rightarrow> jtype \<Rightarrow> bool" where
  "instance_of JNull t = (t = TNone)"
| "instance_of (JBool b) t = (t = TBool \<or> t = TInt)"
| "instance_of (JInt i) t = (t = TInt)"
| "instance_of (JFloat f) t = (t = TFloat)"
| "instance_of (JStr s) t = (t = TStr)"
| "instance_of (JArr xs) t = (t = TList)"
| "instance_of (JObj kvs) t = (t = TDict)"

text \<open>\<^verbatim>\<open>isinstance(v, ts)\<close> for a tuple of type objects (a single type is a one-element tuple).\<close>

definition isinstance :: "json \<Rightarrow> jtype list \<Rightarrow> bool" where
  "isinstance v ts = list_ex (instance_of v) ts"

text \<open>
  The exceptions in play. \<^verbatim>\<open>json.loads\<close> raises \<^verbatim>\<open>JSONDecodeError\<close> on a \<^verbatim>\<open>str\<close> that is
  not a JSON text, and \<^verbatim>\<open>TypeError\<close> on an argument that is not \<^verbatim>\<open>str\<close>, \<^verbatim>\<open>bytes\<close> or
  \<^verbatim>\<open>bytearray\<close>.
\<close>

datatype exn = JSONDecodeError | TypeError

text \<open>
  \<^verbatim>\<open>json.loads\<close> belongs to the Python standard library; its parsing of a \<^verbatim>\<open>str\<close> is the
  parameter \<open>loads\<close> (\<open>None\<close> is \<^verbatim>\<open>JSONDecodeError\<close>). What is fixed here is the dispatch
  on the argument's type. Resource errors of the parser (recursion depth, the digit limit
  of integers) are not modelled.
\<close>

fun json_loads :: "(string \<Rightarrow> json option) \<Rightarrow> json \<Rightarrow> exn + json" where
  "json_loads loads (JStr s) = (case loads s of None \<Rightarrow> Inl JSONDecodeError | Some d \<Rightarrow> Inr d)"
| "json_loads loads v = Inl TypeError"

text \<open>
  What the program does to the outside, in order: a call of \<^verbatim>\<open>json.loads\<close> with its
  argument, and a call of \<^verbatim>\<open>Record.update\<close> on a record with the custom field's name and
  the value sent. Logging is left out.
\<close>

datatype event = Decode json | Update nat string json

section \<open>\<^verbatim>\<open>unwrap_actual_json\<close>\<close>

text \<open>
  The condition of line 26:
  \<^verbatim>\<open>expected_type is not None and isinstance(data, expected_type)
    or expected_type is None and not isinstance(data, str)\<close>.
\<close>

fun found_expected :: "jtype list option \<Rightarrow> json \<Rightarrow> bool" where
  "found_expected (Some ts) data = isinstance data ts"
| "found_expected None data = (\<not> isinstance data [TStr])"

text \<open>
  The \<^verbatim>\<open>while iteration < max_iterations\<close> loop of lines 19 to 29, with the events so far.
  A \<^verbatim>\<open>JSONDecodeError\<close> is caught and returns \<^verbatim>\<open>(False, None)\<close>; a \<^verbatim>\<open>TypeError\<close> is not
  caught. Falling out of the loop returns \<^verbatim>\<open>(False, None)\<close> (line 31).
\<close>

function unwrap_loop ::
  "(string \<Rightarrow> json option) \<Rightarrow> jtype list option \<Rightarrow> int \<Rightarrow> int \<Rightarrow> json \<Rightarrow> event list
     \<Rightarrow> event list \<times> (exn + bool \<times> json)" where
  "unwrap_loop loads expected_type max_iterations iteration data tr =
     (if iteration < max_iterations then
        (case json_loads loads data of
           Inl JSONDecodeError \<Rightarrow> (tr @ [Decode data], Inr (False, JNull))
         | Inl TypeError \<Rightarrow> (tr @ [Decode data], Inl TypeError)
         | Inr d \<Rightarrow>
             if found_expected expected_type d then (tr @ [Decode data], Inr (True, d))
             else unwrap_loop loads expected_type max_iterations (iteration + 1) d
                    (tr @ [Decode data]))
      else (tr, Inr (False, JNull)))"
  by pat_completeness auto
termination
  by (relation "measure (\<lambda>(loads, expected_type, max_iterations, iteration, data, tr).
                   nat (max_iterations - iteration))") auto

declare unwrap_loop.simps [simp del]

definition unwrap_actual_json ::
  "(string \<Rightarrow> json option) \<Rightarrow> json \<Rightarrow> jtype list option \<Rightarrow> int
     \<Rightarrow> event list \<times> (exn + bool \<times> json)" where
  "unwrap_actual_json loads input_str expected_type max_iterations =
     unwrap_loop loads expected_type max_iterations 0 input_str []"

section \<open>\<^verbatim>\<open>fix_netbox_json_field\<close>\<close>

text \<open>
  A record set is a sequence of record handles; the records themselves live in a store
  that maps a handle to the record's \<^verbatim>\<open>custom_fields\<close> dictionary.
\<close>

type_synonym store = "nat \<Rightarrow> (string \<times> json) list"

text \<open>\<^verbatim>\<open>nbobj.custom_fields.get(custom_field_name)\<close>: \<^verbatim>\<open>None\<close> when the key is absent.\<close>

definition cf_get :: "store \<Rightarrow> nat \<Rightarrow> string \<Rightarrow> json" where
  "cf_get st nbobj name = (case map_of (st nbobj) name of None \<Rightarrow> JNull | Some v \<Rightarrow> v)"

text \<open>
  \<^verbatim>\<open>Record.update\<close> belongs to pynetbox. Its contract: the store either rejects the
  request (\<^verbatim>\<open>RequestError\<close>, the result \<open>None\<close>) and the record is as before, or the named
  custom field holds the value afterwards. Which requests are rejected is the parameter
  \<open>rejects\<close>. A failure to reach the store at all is not modelled.
\<close>

definition nb_update ::
  "(nat \<Rightarrow> json \<Rightarrow> bool) \<Rightarrow> store \<Rightarrow> nat \<Rightarrow> string \<Rightarrow> json \<Rightarrow> store option" where
  "nb_update rejects st nbobj name v =
     (if rejects nbobj v then None
      else Some (st(nbobj := AList.update name v (st nbobj))))"

text \<open>The arguments of \<^verbatim>\<open>fix_netbox_json_field\<close> other than the record set.\<close>

record args =
  custom_field_name :: string
  max_iterations :: int
  make_changes :: bool
  expected_types :: "jtype list"
  replace_empty_string_with_null :: bool

text \<open>The defaults of the signature, for a given field name.\<close>

definition default_args :: "string \<Rightarrow> args" where
  "default_args name =
     \<lparr> custom_field_name = name, max_iterations = 10, make_changes = False,
       expected_types = [TList, TDict, TNone], replace_empty_string_with_null = False \<rparr>"

text \<open>The first loop (lines 47 to 54): the records with a bad value, in iteration order.\<close>

fun classify :: "args \<Rightarrow> store \<Rightarrow> nat list \<Rightarrow> nat list \<Rightarrow> nat list" where
  "classify a st [] nbobj_with_bad_value = nbobj_with_bad_value"
| "classify a st (nbobj # recordset) nbobj_with_bad_value =
     (let json_value = cf_get st nbobj (custom_field_name a) in
      if json_value = JNull \<or> isinstance json_value (expected_types a)
      then classify a st recordset nbobj_with_bad_value
      else classify a st recordset (nbobj_with_bad_value @ [nbobj]))"

text \<open>
  Lines 58 to 63: \<^verbatim>\<open>status, fixed_value\<close> for one record. The call of
  \<^verbatim>\<open>unwrap_actual_json\<close> passes \<^verbatim>\<open>max_iterations\<close> only, so \<^verbatim>\<open>expected_type\<close> is \<^verbatim>\<open>None\<close>.
\<close>

definition compute_fix ::
  "(string \<Rightarrow> json option) \<Rightarrow> args \<Rightarrow> store \<Rightarrow> nat \<Rightarrow> event list \<times> (exn + bool \<times> json)" where
  "compute_fix loads a st nbobj =
     (if cf_get st nbobj (custom_field_name a) = JStr [] \<and> replace_empty_string_with_null a
      then ([], Inr (True, JNull))
      else unwrap_actual_json loads (cf_get st nbobj (custom_field_name a)) None
             (max_iterations a))"

text \<open>
  The second loop (lines 56 to 77) over the records with a bad value, carrying the events,
  the store and the two result lists. An exception of \<^verbatim>\<open>unwrap_actual_json\<close> leaves the
  loop and the function; a \<^verbatim>\<open>RequestError\<close> of the update is caught.
\<close>

fun repair ::
  "(string \<Rightarrow> json option) \<Rightarrow> (nat \<Rightarrow> json \<Rightarrow> bool) \<Rightarrow> args \<Rightarrow> nat list
     \<Rightarrow> event list \<Rightarrow> store \<Rightarrow> nat list \<Rightarrow> nat list
     \<Rightarrow> event list \<times> store \<times> (exn + nat list \<times> nat list)" where
  "repair loads rejects a [] tr st nbobj_updated nbobj_not_updated =
     (tr, st, Inr (nbobj_updated, nbobj_not_updated))"
| "repair loads rejects a (nbobj # rest) tr st nbobj_updated nbobj_not_updated =
     (case compute_fix loads a st nbobj of
        (evs, Inl e) \<Rightarrow> (tr @ evs, st, Inl e)
      | (evs, Inr (status, fixed_value)) \<Rightarrow>
          if \<not> status then
            repair loads rejects a rest (tr @ evs) st nbobj_updated (nbobj_not_updated @ [nbobj])
          else if make_changes a then
            (case nb_update rejects st nbobj (custom_field_name a) fixed_value of
               Some st' \<Rightarrow>
                 repair loads rejects a rest
                   (tr @ evs @ [Update nbobj (custom_field_name a) fixed_value]) st'
                   (nbobj_updated @ [nbobj]) nbobj_not_updated
             | None \<Rightarrow>
                 repair loads rejects a rest
                   (tr @ evs @ [Update nbobj (custom_field_name a) fixed_value]) st
                   nbobj_updated (nbobj_not_updated @ [nbobj]))
          else
            repair loads rejects a rest (tr @ evs) st (nbobj_updated @ [nbobj]) nbobj_not_updated)"

definition fix_netbox_json_field ::
  "(string \<Rightarrow> json option) \<Rightarrow> (nat \<Rightarrow> json \<Rightarrow> bool) \<Rightarrow> args \<Rightarrow> store \<Rightarrow> nat list
     \<Rightarrow> event list \<times> store \<times> (exn + nat list \<times> nat list)" where
  "fix_netbox_json_field loads rejects a st recordset =
     repair loads rejects a (classify a st recordset []) [] st [] []"

section \<open>A decoder for the examples\<close>

text \<open>
  The examples below need a concrete decoder. \<open>loads_fragment\<close> agrees with \<^verbatim>\<open>json.loads\<close>
  on the ASCII texts it accepts: the literals \<^verbatim>\<open>null\<close>, \<^verbatim>\<open>true\<close>, \<^verbatim>\<open>false\<close>, \<^verbatim>\<open>{}\<close>,
  \<^verbatim>\<open>[]\<close>, and a string literal without control characters whose only escapes are of the
  quote and the backslash. It rejects every other text; those used below (the empty text
  and \<^verbatim>\<open>not json at all\<close>) are rejected by \<^verbatim>\<open>json.loads\<close> as well. The general theorems
  hold for every decoder.
\<close>

definition dq :: char where
  "dq = CHR 0x22"

definition bs :: char where
  "bs = CHR 0x5C"

fun unescape :: "string \<Rightarrow> string option" where
  "unescape [] = Some []"
| "unescape [c] = (if c = bs \<or> c = dq \<or> (of_char c :: nat) < 32 then None else Some [c])"
| "unescape (c # d # cs) =
     (if c = bs then
        (if d = dq \<or> d = bs then map_option ((#) d) (unescape cs) else None)
      else if c = dq \<or> (of_char c :: nat) < 32 then None
      else map_option ((#) c) (unescape (d # cs)))"

definition loads_fragment :: "string \<Rightarrow> json option" where
  "loads_fragment s =
     (if s = ''null'' then Some JNull
      else if s = ''true'' then Some (JBool True)
      else if s = ''false'' then Some (JBool False)
      else if s = ''{}'' then Some (JObj [])
      else if s = ''[]'' then Some (JArr [])
      else if 2 \<le> length s \<and> hd s = dq \<and> last s = dq
        then map_option JStr (unescape (butlast (tl s)))
      else None)"

text \<open>\<^verbatim>\<open>json.dumps\<close> of a string without control or non-ASCII characters.\<close>

definition dumps_str :: "string \<Rightarrow> string" where
  "dumps_str s = dq # concat (map (\<lambda>c. if c = dq \<or> c = bs then [bs, c] else [c]) s) @ [dq]"

section \<open>Notions used in the statements\<close>

text \<open>An event is a call of \<^verbatim>\<open>Record.update\<close>.\<close>

definition is_update :: "event \<Rightarrow> bool" where
  "is_update ev = (case ev of Update nbobj name v \<Rightarrow> True | Decode d \<Rightarrow> False)"

text \<open>The value of \<^verbatim>\<open>status\<close> after lines 58 to 63 for a record, where one is computed.\<close>

definition fix_status :: "(string \<Rightarrow> json option) \<Rightarrow> args \<Rightarrow> store \<Rightarrow> nat \<Rightarrow> bool" where
  "fix_status loads a st nbobj =
     (case snd (compute_fix loads a st nbobj) of
        Inl e \<Rightarrow> False
      | Inr (status, fixed_value) \<Rightarrow> status)"

text \<open>The negation of the test of line 50: the record is queued for repair.\<close>

definition bad_value :: "args \<Rightarrow> store \<Rightarrow> nat \<Rightarrow> bool" where
  "bad_value a st nbobj =
     (cf_get st nbobj (custom_field_name a) \<noteq> JNull
      \<and> \<not> isinstance (cf_get st nbobj (custom_field_name a)) (expected_types a))"

text \<open>
  A text \<open>s\<close> is the value \<open>v\<close> string-encoded \<open>n\<close> times, each parse peeling one
  layer: \<open>n\<close> successive parses starting from \<open>s\<close> succeed, the first \<open>n - 1\<close> of them
  give a string again, and the last gives \<open>v\<close>, which is not a string.
\<close>

fun encoded :: "(string \<Rightarrow> json option) \<Rightarrow> nat \<Rightarrow> string \<Rightarrow> json \<Rightarrow> bool" where
  "encoded loads 0 s v = False"
| "encoded loads (Suc n) s v =
     (case loads s of
        None \<Rightarrow> False
      | Some (JStr s') \<Rightarrow> encoded loads n s' v
      | Some d \<Rightarrow> n = 0 \<and> d = v)"

text \<open>
  A store for the examples, with the custom field \<^verbatim>\<open>cf\<close>: record 1 holds the text
  \<^verbatim>\<open>true\<close>, record 2 a text that is not JSON, record 3 the empty string, record 4 the
  number 5, record 5 the text of an empty object encoded twice, record 6 an object,
  and record 7 has no such field.
\<close>

definition example_store :: store where
  "example_store =
     (\<lambda>nbobj. [])
       (1 := [(''cf'', JStr ''true'')],
        2 := [(''cf'', JStr ''not json at all'')],
        3 := [(''cf'', JStr [])],
        4 := [(''cf'', JInt 5)],
        5 := [(''cf'', JStr (dumps_str ''{}''))],
        6 := [(''cf'', JObj [])],
        7 := [(''other'', JStr ''{}'')])"

text \<open>A store that accepts every update, and one that rejects every update.\<close>

definition accept_all :: "nat \<Rightarrow> json \<Rightarrow> bool" where
  "accept_all nbobj v = False"

definition reject_all :: "nat \<Rightarrow> json \<Rightarrow> bool" where
  "reject_all nbobj v = True"

section \<open>The unwrapper\<close>

lemma unwrap_loop_exhausted:
  "mx \<le> iteration \<Longrightarrow>
   unwrap_loop loads expected_type mx iteration data tr = (tr, Inr (False, JNull))"
  by (subst unwrap_loop.simps) simp

lemma unwrap_loop_not_str:
  "\<not> isinstance data [TStr] \<Longrightarrow> iteration < mx \<Longrightarrow>
   unwrap_loop loads expected_type mx iteration data tr = (tr @ [Decode data], Inl TypeError)"
  by (cases data) (simp_all add: unwrap_loop.simps isinstance_def)

lemma unwrap_loop_result:
  "unwrap_loop loads None mx iteration data tr = (tr', r) \<Longrightarrow>
   filter is_update tr' = filter is_update tr
   \<and> (case r of
        Inl e \<Rightarrow> e = TypeError \<and> \<not> isinstance data [TStr] \<and> iteration < mx
      | Inr (status, v) \<Rightarrow>
          (status \<longrightarrow> \<not> isinstance v [TStr]) \<and> (isinstance data [TStr] \<or> mx \<le> iteration))"
proof (induction loads "None :: jtype list option" mx iteration data tr rule: unwrap_loop.induct)
  case (1 loads mx iteration data tr)
  show ?case
  proof (cases "iteration < mx")
    case False
    with "1.prems" show ?thesis by (auto simp: unwrap_loop_exhausted)
  next
    case True
    show ?thesis
    proof (cases "json_loads loads data")
      case (Inl e)
      with True "1.prems" show ?thesis
        by (cases data; cases e)
          (auto simp: unwrap_loop.simps [of loads None mx iteration] is_update_def isinstance_def
            split: option.splits)
    next
      case (Inr d)
      then have str: "isinstance data [TStr]"
        by (cases data) (simp_all add: isinstance_def)
      show ?thesis
      proof (cases "found_expected None d")
        case True
        with \<open>iteration < mx\<close> Inr "1.prems" str show ?thesis
          by (auto simp: unwrap_loop.simps [of loads None mx iteration] is_update_def)
      next
        case False
        then have dstr: "isinstance d [TStr]" by simp
        from False \<open>iteration < mx\<close> Inr "1.prems"
        have rec: "unwrap_loop loads None mx (iteration + 1) d (tr @ [Decode data]) = (tr', r)"
          by (simp add: unwrap_loop.simps [of loads None mx iteration])
        from "1.hyps" [OF \<open>iteration < mx\<close> Inr False rec] dstr str show ?thesis
          by (auto simp: is_update_def split: sum.splits)
      qed
    qed
  qed
qed


lemma encoded_not_str: "encoded loads n s v \<Longrightarrow> \<not> isinstance v [TStr]"
  by (induction n arbitrary: s) (auto simp: isinstance_def split: option.splits json.splits)

lemma unwrap_loop_encoded:
  "encoded loads n s v \<Longrightarrow>
   snd (unwrap_loop loads None mx iteration (JStr s) tr) =
     (if iteration + int n \<le> mx then Inr (True, v) else Inr (False, JNull))
   \<and> length (fst (unwrap_loop loads None mx iteration (JStr s) tr)) =
       length tr + min n (nat (mx - iteration))"
proof (induction n arbitrary: s iteration tr)
  case 0
  then show ?case by simp
next
  case (Suc n)
  show ?case
  proof (cases "iteration < mx")
    case False
    then show ?thesis by (simp add: unwrap_loop_exhausted)
  next
    case True
    from Suc.prems obtain d where d: "loads s = Some d"
      by (auto split: option.splits)
    show ?thesis
    proof (cases d)
      case (JStr s')
      with Suc.prems d have enc: "encoded loads n s' v" by simp
      have step: "unwrap_loop loads None mx iteration (JStr s) tr =
          unwrap_loop loads None mx (iteration + 1) (JStr s') (tr @ [Decode (JStr s)])"
        using True d JStr by (subst unwrap_loop.simps) (simp add: isinstance_def)
      have m: "Suc (min n (nat (mx - (iteration + 1)))) = min (Suc n) (nat (mx - iteration))"
        using True by (simp add: min_def) linarith
      show ?thesis
        using Suc.IH [OF enc, of "iteration + 1" "tr @ [Decode (JStr s)]"] step m
        by (simp add: add.assoc)
    qed (use Suc.prems d True in \<open>auto simp: unwrap_loop.simps [of loads None mx iteration] isinstance_def\<close>)
  qed
qed


text \<open>
  C10. With \<^verbatim>\<open>max_iterations\<close> at most 0 the loop body never runs: for every input value and
  every expected type \<^verbatim>\<open>unwrap_actual_json\<close> returns \<^verbatim>\<open>(False, None)\<close> and no call of
  \<^verbatim>\<open>json.loads\<close> is made.
\<close>

theorem unwrap_nonpositive_bound:
  "mx \<le> 0 \<Longrightarrow>
   unwrap_actual_json loads input_str expected_type mx = ([], Inr (False, JNull))"
  by (simp add: unwrap_actual_json_def unwrap_loop_exhausted)

theorem unwrap_nonpositive_bound_witness:
  "unwrap_actual_json loads_fragment (JStr ''{}'') None 0 = ([], Inr (False, JNull))
   \<and> unwrap_actual_json loads_fragment (JObj []) (Some [TDict]) (- 3) = ([], Inr (False, JNull))"
  using unwrap_nonpositive_bound [of 0 loads_fragment "JStr ''{}''" None]
    unwrap_nonpositive_bound [of "- 3" loads_fragment "JObj []" "Some [TDict]"]
  by simp

text \<open>
  C7. A string that \<^verbatim>\<open>json.loads\<close> rejects at the first parse makes
  \<^verbatim>\<open>unwrap_actual_json\<close> return \<^verbatim>\<open>(False, None)\<close> after that one call of \<^verbatim>\<open>json.loads\<close>,
  for every \<^verbatim>\<open>max_iterations\<close> of at least 1 and every expected type.
\<close>

theorem unwrap_decode_error:
  "loads s = None \<Longrightarrow> 1 \<le> mx \<Longrightarrow>
   unwrap_actual_json loads (JStr s) expected_type mx = ([Decode (JStr s)], Inr (False, JNull))"
  by (simp add: unwrap_actual_json_def unwrap_loop.simps)

theorem unwrap_decode_error_witness:
  "loads_fragment ''not json at all'' = None
   \<and> unwrap_actual_json loads_fragment (JStr ''not json at all'') None 10
       = ([Decode (JStr ''not json at all'')], Inr (False, JNull))"
proof -
  have rejected: "loads_fragment ''not json at all'' = None"
    by (simp add: loads_fragment_def dq_def)
  have bound: "(1::int) \<le> 10" by simp
  show ?thesis
    using rejected
      unwrap_decode_error [where loads = loads_fragment and s = "''not json at all''"
        and mx = 10 and expected_type = None, OF rejected bound]
    by simp
qed

text \<open>
  C5, as the code has it. \<^verbatim>\<open>unwrap_actual_json\<close> does not look at the type of its input
  before decoding. For an input that is not a string, such as a dict that already has the
  expected type, it never returns success: with \<^verbatim>\<open>max_iterations\<close> of at least 1 its one
  action is a call of \<^verbatim>\<open>json.loads\<close> on the input, which raises \<^verbatim>\<open>TypeError\<close>, and with
  \<^verbatim>\<open>max_iterations\<close> at most 0 it returns \<^verbatim>\<open>(False, None)\<close>.
\<close>

theorem unwrap_non_string_input:
  "\<not> isinstance input_str [TStr] \<Longrightarrow>
   unwrap_actual_json loads input_str expected_type mx =
     (if 0 < mx then ([Decode input_str], Inl TypeError) else ([], Inr (False, JNull)))"
  by (simp add: unwrap_actual_json_def unwrap_loop_not_str unwrap_loop_exhausted)

theorem unwrap_non_string_input_witness:
  "\<not> isinstance (JObj []) [TStr]
   \<and> unwrap_actual_json loads_fragment (JObj []) (Some [TDict]) 10
       = ([Decode (JObj [])], Inl TypeError)"
proof -
  have dict: "\<not> isinstance (JObj []) [TStr]" by (simp add: isinstance_def)
  show ?thesis
    using dict unwrap_non_string_input [OF dict, of loads_fragment "Some [TDict]" 10] by simp
qed

text \<open>
  The claim C5 as stated fails: a dict given with the expected type dict is not returned
  as a success; one decode is attempted and raises.
\<close>

theorem unwrap_typed_input_counterexample:
  "isinstance (JObj []) [TDict]
   \<and> unwrap_actual_json loads_fragment (JObj []) (Some [TDict]) 10
       = ([Decode (JObj [])], Inl TypeError)"
  by (simp add: isinstance_def unwrap_actual_json_def unwrap_loop.simps)

text \<open>
  C3, as the code has it. For a string that is a value string-encoded \<open>n\<close> times, each
  parse peeling one layer, \<^verbatim>\<open>unwrap_actual_json\<close> without an expected type succeeds with
  the innermost value when \<open>n\<close> is at most \<^verbatim>\<open>max_iterations\<close>, and returns
  \<^verbatim>\<open>(False, None)\<close> when \<open>n\<close> is greater than \<^verbatim>\<open>max_iterations\<close>; the number of calls of
  \<^verbatim>\<open>json.loads\<close> is the smaller of \<open>n\<close> and the bound, so the failure is the exhausted
  bound and not a decode error.
\<close>

theorem unwrap_encoded_depth:
  assumes "encoded loads n s v"
  shows "snd (unwrap_actual_json loads (JStr s) None mx)
           = (if int n \<le> mx then Inr (True, v) else Inr (False, JNull))
         \<and> length (fst (unwrap_actual_json loads (JStr s) None mx)) = min n (nat mx)"
  using unwrap_loop_encoded [OF assms, of mx 0 "[]"] by (simp add: unwrap_actual_json_def)

theorem unwrap_encoded_depth_witness:
  "encoded loads_fragment 2 (dumps_str ''{}'') (JObj [])
   \<and> snd (unwrap_actual_json loads_fragment (JStr (dumps_str ''{}'')) None 2) = Inr (True, JObj [])
   \<and> snd (unwrap_actual_json loads_fragment (JStr (dumps_str ''{}'')) None 1) = Inr (False, JNull)
   \<and> length (fst (unwrap_actual_json loads_fragment (JStr (dumps_str ''{}'')) None 1)) = 1"
proof -
  have twice: "encoded loads_fragment 2 (dumps_str ''{}'') (JObj [])" by code_simp
  show ?thesis
    using twice unwrap_encoded_depth [OF twice, of 2] unwrap_encoded_depth [OF twice, of 1]
    by simp
qed

text \<open>
  The claim C3 as stated fails where the number of layers equals the bound: the text of
  an empty object is one layer and is unwrapped with \<^verbatim>\<open>max_iterations = 1\<close>, and the same
  text encoded once more is two layers and is unwrapped with \<^verbatim>\<open>max_iterations = 2\<close>.
\<close>

theorem unwrap_depth_equal_bound_counterexample:
  "encoded loads_fragment 1 ''{}'' (JObj [])
   \<and> unwrap_actual_json loads_fragment (JStr ''{}'') None 1
       = ([Decode (JStr ''{}'')], Inr (True, JObj []))
   \<and> encoded loads_fragment 2 (dumps_str ''{}'') (JObj [])
   \<and> unwrap_actual_json loads_fragment (JStr (dumps_str ''{}'')) None 2
       = ([Decode (JStr (dumps_str ''{}'')), Decode (JStr ''{}'')], Inr (True, JObj []))"
  by code_simp

section \<open>The repair workflow\<close>

lemma classify_filter:
  "classify a st recordset acc = acc @ filter (bad_value a st) recordset"
  by (induction recordset arbitrary: acc) (simp_all add: bad_value_def Let_def)

lemma compute_fix_result:
  assumes "compute_fix loads a st nbobj = (evs, r)"
  shows "filter is_update evs = []
   \<and> (case r of
        Inl e \<Rightarrow> e = TypeError \<and> 0 < max_iterations a
                  \<and> \<not> isinstance (cf_get st nbobj (custom_field_name a)) [TStr]
      | Inr (status, v) \<Rightarrow>
          (status \<longrightarrow> \<not> isinstance v [TStr])
          \<and> (isinstance (cf_get st nbobj (custom_field_name a)) [TStr] \<or> max_iterations a \<le> 0))"
proof (cases "cf_get st nbobj (custom_field_name a) = JStr [] \<and> replace_empty_string_with_null a")
  case True
  with assms show ?thesis by (auto simp: compute_fix_def isinstance_def)
next
  case False
  with assms have
    "unwrap_loop loads None (max_iterations a) 0 (cf_get st nbobj (custom_field_name a)) [] = (evs, r)"
    by (auto simp: compute_fix_def unwrap_actual_json_def)
  from unwrap_loop_result [OF this] show ?thesis by (auto split: sum.splits)
qed

lemma repair_step:
  assumes "compute_fix loads a st h = (evs, Inr (status, v))"
  shows "repair loads rejects a (h # hs) tr st u n =
     (if \<not> status then repair loads rejects a hs (tr @ evs) st u (n @ [h])
      else if \<not> make_changes a then repair loads rejects a hs (tr @ evs) st (u @ [h]) n
      else if rejects h v then
        repair loads rejects a hs (tr @ evs @ [Update h (custom_field_name a) v]) st u (n @ [h])
      else
        repair loads rejects a hs (tr @ evs @ [Update h (custom_field_name a) v])
          (st(h := AList.update (custom_field_name a) v (st h))) (u @ [h]) n)"
  using assms by (simp add: nb_update_def)


lemma cf_get_updated:
  "cf_get (st(nbobj := AList.update name v (st nbobj))) h name = (if h = nbobj then v else cf_get st h name)"
  by (simp add: cf_get_def update_conv')

lemma repair_shuffles:
  "repair loads rejects a hs tr st u n = (tr', st', Inr (u', n')) \<Longrightarrow>
   \<exists>us ns. u' = u @ us \<and> n' = n @ ns \<and> hs \<in> shuffles us ns"
proof (induction hs arbitrary: tr st u n)
  case Nil
  then show ?case by simp
next
  case (Cons h hs)
  obtain evs r where cf: "compute_fix loads a st h = (evs, r)" by (cases "compute_fix loads a st h")
  show ?case
  proof (cases r)
    case (Inl e)
    with Cons.prems cf show ?thesis by simp
  next
    case (Inr sv)
    obtain status v where sv: "sv = (status, v)" by (cases sv)
    consider (failed) "\<not> status"
      | (dry) "status" "\<not> make_changes a"
      | (rejected) "status" "make_changes a" "rejects h v"
      | (written) "status" "make_changes a" "\<not> rejects h v"
      by blast
    then show ?thesis
    proof cases
      case failed
      with Cons.prems cf Inr sv
      have "repair loads rejects a hs (tr @ evs) st u (n @ [h]) = (tr', st', Inr (u', n'))" by simp
      from Cons.IH [OF this] obtain us ns where
        "u' = u @ us" "n' = (n @ [h]) @ ns" "hs \<in> shuffles us ns" by blast
      then have "u' = u @ us \<and> n' = n @ (h # ns) \<and> h # hs \<in> shuffles us (h # ns)"
        by (simp add: Cons_in_shuffles_rightI)
      then show ?thesis by blast
    next
      case dry
      with Cons.prems cf Inr sv
      have "repair loads rejects a hs (tr @ evs) st (u @ [h]) n = (tr', st', Inr (u', n'))" by simp
      from Cons.IH [OF this] obtain us ns where
        "u' = (u @ [h]) @ us" "n' = n @ ns" "hs \<in> shuffles us ns" by blast
      then have "u' = u @ (h # us) \<and> n' = n @ ns \<and> h # hs \<in> shuffles (h # us) ns"
        by (simp add: Cons_in_shuffles_leftI)
      then show ?thesis by blast
    next
      case rejected
      with Cons.prems cf Inr sv
      have "repair loads rejects a hs (tr @ evs @ [Update h (custom_field_name a) v]) st u (n @ [h])
              = (tr', st', Inr (u', n'))"
        by (simp add: nb_update_def)
      from Cons.IH [OF this] obtain us ns where
        "u' = u @ us" "n' = (n @ [h]) @ ns" "hs \<in> shuffles us ns" by blast
      then have "u' = u @ us \<and> n' = n @ (h # ns) \<and> h # hs \<in> shuffles us (h # ns)"
        by (simp add: Cons_in_shuffles_rightI)
      then show ?thesis by blast
    next
      case written
      with Cons.prems cf Inr sv
      have "repair loads rejects a hs (tr @ evs @ [Update h (custom_field_name a) v])
              (st(h := AList.update (custom_field_name a) v (st h))) (u @ [h]) n
              = (tr', st', Inr (u', n'))"
        by (simp add: nb_update_def)
      from Cons.IH [OF this] obtain us ns where
        "u' = (u @ [h]) @ us" "n' = n @ ns" "hs \<in> shuffles us ns" by blast
      then have "u' = u @ (h # us) \<and> n' = n @ ns \<and> h # hs \<in> shuffles (h # us) ns"
        by (simp add: Cons_in_shuffles_leftI)
      then show ?thesis by blast
    qed
  qed
qed

lemma repair_raises:
  "repair loads rejects a hs tr st u n = (tr', st', Inl e) \<Longrightarrow> e = TypeError \<and> 0 < max_iterations a"
proof (induction hs arbitrary: tr st u n)
  case Nil
  then show ?case by simp
next
  case (Cons h hs)
  obtain evs r where cf: "compute_fix loads a st h = (evs, r)" by (cases "compute_fix loads a st h")
  show ?case
  proof (cases r)
    case (Inl e')
    with compute_fix_result [OF cf] Cons.prems cf show ?thesis by simp
  next
    case (Inr sv)
    obtain status v where sv: "sv = (status, v)" by (cases sv)
    from Cons.prems have
      "\<exists>tr st u n. repair loads rejects a hs tr st u n = (tr', st', Inl e)"
      unfolding repair_step [OF cf [unfolded Inr sv]] by (metis (full_types))
    then show ?thesis using Cons.IH by blast
  qed
qed

lemma repair_returns:
  "distinct hs \<Longrightarrow> \<forall>h\<in>set hs. isinstance (cf_get st h (custom_field_name a)) [TStr] \<Longrightarrow>
   \<exists>tr' st' u' n'. repair loads rejects a hs tr st u n = (tr', st', Inr (u', n'))"
proof (induction hs arbitrary: tr st u n)
  case Nil
  then show ?case by simp
next
  case (Cons h hs)
  obtain evs r where cf: "compute_fix loads a st h = (evs, r)" by (cases "compute_fix loads a st h")
  from compute_fix_result [OF cf] Cons.prems obtain status v where r: "r = Inr (status, v)"
    by (cases r) auto
  have d: "distinct hs" and nh: "h \<notin> set hs" using Cons.prems by simp_all
  have same: "\<forall>k\<in>set hs. isinstance (cf_get st k (custom_field_name a)) [TStr]"
    using Cons.prems by simp
  have upd: "\<forall>k\<in>set hs. isinstance (cf_get (st(h := AList.update (custom_field_name a) v (st h))) k
                 (custom_field_name a)) [TStr]"
    using same nh by (auto simp: cf_get_updated)
  note ih1 = Cons.IH [OF d same] and ih2 = Cons.IH [OF d upd]
  show ?case
    unfolding repair_step [OF cf [unfolded r]] using ih1 ih2 by (metis (full_types))
qed

lemma repair_dry_run:
  assumes "\<not> make_changes a"
  shows "repair loads rejects a hs tr st u n = (tr', st', r) \<Longrightarrow>
    st' = st \<and> filter is_update tr' = filter is_update tr
    \<and> (case r of
         Inr (u', n') \<Rightarrow>
           u' = u @ filter (fix_status loads a st) hs
           \<and> n' = n @ filter (\<lambda>h. \<not> fix_status loads a st h) hs
       | Inl e \<Rightarrow>
           e = TypeError \<and> 0 < max_iterations a
           \<and> (\<exists>h\<in>set hs. \<not> isinstance (cf_get st h (custom_field_name a)) [TStr]))"
proof (induction hs arbitrary: tr u n)
  case Nil
  then show ?case by auto
next
  case (Cons h hs)
  obtain evs r' where cf: "compute_fix loads a st h = (evs, r')" by (cases "compute_fix loads a st h")
  note cfr = compute_fix_result [OF cf]
  show ?case
  proof (cases r')
    case (Inl e')
    with cfr Cons.prems cf show ?thesis by auto
  next
    case (Inr sv)
    obtain status v where sv: "sv = (status, v)" by (cases sv)
    have fs: "fix_status loads a st h = status"
      by (simp add: fix_status_def cf Inr sv)
    show ?thesis
    proof (cases status)
      case True
      with Cons.prems assms have
        "repair loads rejects a hs (tr @ evs) st (u @ [h]) n = (tr', st', r)"
        unfolding repair_step [OF cf [unfolded Inr sv]] by simp
      from Cons.IH [OF this] cfr fs True show ?thesis
        by (auto split: sum.splits)
    next
      case False
      with Cons.prems assms have
        "repair loads rejects a hs (tr @ evs) st u (n @ [h]) = (tr', st', r)"
        unfolding repair_step [OF cf [unfolded Inr sv]] by simp
      from Cons.IH [OF this] cfr fs False show ?thesis
        by (auto split: sum.splits)
    qed
  qed
qed

lemma repair_updated_not_str:
  assumes "make_changes a"
  shows "\<forall>k\<in>set u. \<not> isinstance (cf_get st k (custom_field_name a)) [TStr] \<Longrightarrow>
    repair loads rejects a hs tr st u n = (tr', st', Inr (u', n')) \<Longrightarrow>
    \<forall>k\<in>set u'. \<not> isinstance (cf_get st' k (custom_field_name a)) [TStr]"
proof (induction hs arbitrary: tr st u n)
  case Nil
  then show ?case by simp
next
  case (Cons h hs)
  obtain evs r where cf: "compute_fix loads a st h = (evs, r)" by (cases "compute_fix loads a st h")
  note cfr = compute_fix_result [OF cf]
  show ?case
  proof (cases r)
    case (Inl e)
    with Cons.prems cf show ?thesis by simp
  next
    case (Inr sv)
    obtain status v where sv: "sv = (status, v)" by (cases sv)
    note step = repair_step [OF cf [unfolded Inr sv]]
    consider (kept) "\<not> status \<or> rejects h v" | (written) "status" "\<not> rejects h v"
      by blast
    then show ?thesis
    proof cases
      case kept
      with Cons.prems(2) assms obtain tr0 where
        "repair loads rejects a hs tr0 st u (n @ [h]) = (tr', st', Inr (u', n'))"
        unfolding step by (metis (full_types))
      from Cons.IH [OF Cons.prems(1) this] show ?thesis .
    next
      case written
      let ?st = "st(h := AList.update (custom_field_name a) v (st h))"
      from written Cons.prems(2) assms have run:
        "repair loads rejects a hs (tr @ evs @ [Update h (custom_field_name a) v]) ?st (u @ [h]) n
           = (tr', st', Inr (u', n'))"
        unfolding step by simp
      from cfr Inr sv written have "\<not> isinstance v [TStr]" by simp
      with Cons.prems(1) have
        "\<forall>k\<in>set (u @ [h]). \<not> isinstance (cf_get ?st k (custom_field_name a)) [TStr]"
        by (auto simp: cf_get_updated)
      from Cons.IH [OF this run] show ?thesis .
    qed
  qed
qed

lemma shuffles_subseq_left: "zs \<in> shuffles xs ys \<Longrightarrow> subseq xs zs"
  by (induction xs ys arbitrary: zs rule: shuffles.induct) auto

lemma shuffles_subseq_right: "zs \<in> shuffles xs ys \<Longrightarrow> subseq ys zs"
  using shuffles_subseq_left [of zs ys xs] by (simp add: shuffles_commutes)

lemma shuffles_distinct_disjoint:
  assumes "zs \<in> shuffles xs ys" "distinct zs"
  shows "set xs \<inter> set ys = {}"
proof -
  have "mset zs = mset (xs @ ys)" using mset_shuffles [OF assms(1)] by simp
  from mset_eq_imp_distinct_iff [OF this] assms(2) have "distinct (xs @ ys)" by simp
  then show ?thesis by simp
qed

text \<open>
  C6. A run that returns gives two lists that partition the candidates of the first loop:
  their lengths add up to the number of candidates, together they hold every candidate
  with its multiplicity, the candidate sequence is an interleaving of the two (so each
  list is in the order of the first loop), and no record is in both when the candidates
  are distinct. The only runs that do not return are those that raise \<^verbatim>\<open>TypeError\<close>, which
  needs a positive \<^verbatim>\<open>max_iterations\<close>; a run over distinct candidates that all hold
  strings returns.
\<close>

theorem buckets_partition_candidates:
  assumes "fix_netbox_json_field loads rejects a st recordset = (tr, st', r)"
  shows "(case r of
            Inr (nbobj_updated, nbobj_not_updated) \<Rightarrow>
              length nbobj_updated + length nbobj_not_updated
                = length (classify a st recordset [])
              \<and> mset nbobj_updated + mset nbobj_not_updated = mset (classify a st recordset [])
              \<and> classify a st recordset [] \<in> shuffles nbobj_updated nbobj_not_updated
              \<and> subseq nbobj_updated (classify a st recordset [])
              \<and> subseq nbobj_not_updated (classify a st recordset [])
              \<and> (distinct (classify a st recordset [])
                   \<longrightarrow> set nbobj_updated \<inter> set nbobj_not_updated = {})
          | Inl e \<Rightarrow> e = TypeError \<and> 0 < max_iterations a)
         \<and> (distinct (classify a st recordset [])
              \<and> (\<forall>nbobj\<in>set (classify a st recordset []).
                    isinstance (cf_get st nbobj (custom_field_name a)) [TStr])
            \<longrightarrow> (\<exists>nbobj_updated nbobj_not_updated. r = Inr (nbobj_updated, nbobj_not_updated)))"
proof -
  let ?cands = "classify a st recordset []"
  from assms have run: "repair loads rejects a ?cands [] st [] [] = (tr, st', r)"
    by (simp add: fix_netbox_json_field_def)
  have returned: "?thesis" if r: "r = Inr (u, n)" for u n
  proof -
    from repair_shuffles [OF run [unfolded r]] have sh: "?cands \<in> shuffles u n" by simp
    have "length u + length n = length ?cands" using length_shuffles [OF sh] by simp
    moreover have "mset u + mset n = mset ?cands" using mset_shuffles [OF sh] by simp
    moreover have "subseq u ?cands" "subseq n ?cands"
      using sh by (rule shuffles_subseq_left, rule shuffles_subseq_right)
    moreover have "distinct ?cands \<longrightarrow> set u \<inter> set n = {}"
      using shuffles_distinct_disjoint [OF sh] by simp
    ultimately show ?thesis using sh r by simp
  qed
  have raised: "?thesis" if r: "r = Inl e" for e
  proof -
    from repair_raises [OF run [unfolded r]] have e: "e = TypeError \<and> 0 < max_iterations a" .
    have "\<not> (distinct ?cands
              \<and> (\<forall>nbobj\<in>set ?cands. isinstance (cf_get st nbobj (custom_field_name a)) [TStr]))"
    proof
      assume "distinct ?cands
              \<and> (\<forall>nbobj\<in>set ?cands. isinstance (cf_get st nbobj (custom_field_name a)) [TStr])"
      then obtain tr' st'' u' n' where
        "repair loads rejects a ?cands [] st [] [] = (tr', st'', Inr (u', n'))"
        using repair_returns [of ?cands st a loads rejects "[]" "[]" "[]"] by blast
      with run r show False by simp
    qed
    with e r show ?thesis by simp
  qed
  show ?thesis
  proof (cases r)
    case (Inl e)
    then show ?thesis by (rule raised)
  next
    case (Inr buckets)
    then have "r = Inr (fst buckets, snd buckets)" by simp
    then show ?thesis by (rule returned)
  qed
qed

theorem buckets_partition_candidates_witness:
  "snd (snd (fix_netbox_json_field loads_fragment accept_all
       ((default_args ''cf'')\<lparr>make_changes := True\<rparr>) example_store [1, 2, 3, 5, 6, 7]))
     = Inr ([1, 5], [2, 3])
   \<and> classify ((default_args ''cf'')\<lparr>make_changes := True\<rparr>) example_store
         [1, 2, 3, 5, 6, 7] [] = [1, 2, 3, 5]
   \<and> [1, 2, 3, 5] \<in> shuffles [1, 5] [2, 3 :: nat]"
proof -
  let ?a = "(default_args ''cf'')\<lparr>make_changes := True\<rparr>"
  let ?run = "fix_netbox_json_field loads_fragment accept_all ?a example_store [1, 2, 3, 5, 6, 7]"
  have run: "?run = (fst ?run, fst (snd ?run), snd (snd ?run))" by simp
  have res: "snd (snd ?run) = Inr ([1, 5], [2, 3])" by code_simp
  have cands: "classify ?a example_store [1, 2, 3, 5, 6, 7] [] = [1, 2, 3, 5]" by code_simp
  show ?thesis
    using buckets_partition_candidates [OF run] res cands by simp
qed

text \<open>
  C9. In a dry run (\<^verbatim>\<open>make_changes\<close> false) no call of \<^verbatim>\<open>Record.update\<close> is made and the
  store is left as it was, whether the run returns or raises. A run that returns has
  appended exactly the candidates whose \<^verbatim>\<open>status\<close> is true to the updated list and exactly
  those whose \<^verbatim>\<open>status\<close> is false to the not-updated list, in candidate order. A dry run
  returns unless \<^verbatim>\<open>max_iterations\<close> is positive and some candidate holds a value that is
  not a string, in which case it raises \<^verbatim>\<open>TypeError\<close>.
\<close>

theorem dry_run_no_update:
  assumes "\<not> make_changes a"
  shows "filter is_update (fst (fix_netbox_json_field loads rejects a st recordset)) = []
    \<and> fst (snd (fix_netbox_json_field loads rejects a st recordset)) = st
    \<and> (case snd (snd (fix_netbox_json_field loads rejects a st recordset)) of
         Inr (nbobj_updated, nbobj_not_updated) \<Rightarrow>
           nbobj_updated = filter (fix_status loads a st) (classify a st recordset [])
           \<and> nbobj_not_updated
               = filter (\<lambda>nbobj. \<not> fix_status loads a st nbobj) (classify a st recordset [])
       | Inl e \<Rightarrow>
           e = TypeError \<and> 0 < max_iterations a
           \<and> (\<exists>nbobj\<in>set (classify a st recordset []).
                 \<not> isinstance (cf_get st nbobj (custom_field_name a)) [TStr]))"
proof -
  obtain tr st' r where
    run: "repair loads rejects a (classify a st recordset []) [] st [] [] = (tr, st', r)"
    by (cases "repair loads rejects a (classify a st recordset []) [] st [] []")
  from repair_dry_run [OF assms run] run show ?thesis
    by (auto simp: fix_netbox_json_field_def split: sum.splits)
qed

theorem dry_run_no_update_witness:
  "\<not> make_changes (default_args ''cf'')
   \<and> fst (fix_netbox_json_field loads_fragment reject_all (default_args ''cf'') example_store
         [1, 2, 3, 5, 6, 7])
       = [Decode (JStr ''true''), Decode (JStr ''not json at all''), Decode (JStr []),
          Decode (JStr (dumps_str ''{}'')), Decode (JStr ''{}'')]
   \<and> snd (snd (fix_netbox_json_field loads_fragment reject_all (default_args ''cf'')
         example_store [1, 2, 3, 5, 6, 7]))
       = Inr ([1, 5], [2, 3])
   \<and> filter (fix_status loads_fragment (default_args ''cf'') example_store) [1, 2, 3, 5]
       = [1, 5]"
proof -
  let ?a = "default_args ''cf''"
  let ?run = "fix_netbox_json_field loads_fragment reject_all ?a example_store [1, 2, 3, 5, 6, 7]"
  have dry: "\<not> make_changes ?a" by (simp add: default_args_def)
  have tr: "fst ?run
       = [Decode (JStr ''true''), Decode (JStr ''not json at all''), Decode (JStr []),
          Decode (JStr (dumps_str ''{}'')), Decode (JStr ''{}'')]"
    by code_simp
  have res: "snd (snd ?run) = Inr ([1, 5], [2, 3])" by code_simp
  have cands: "classify ?a example_store [1, 2, 3, 5, 6, 7] [] = [1, 2, 3, 5]" by code_simp
  show ?thesis
    using dry tr res cands
      dry_run_no_update [OF dry, of loads_fragment reject_all example_store "[1, 2, 3, 5, 6, 7]"]
    by simp
qed

text \<open>
  C1, as the code has it. For a candidate whose raw value is a non-empty string the second
  loop calls \<^verbatim>\<open>unwrap_actual_json\<close> with \<^verbatim>\<open>max_iterations\<close> only, so with no expected
  type, and whenever that call succeeds the fixed value is a value that is not a string;
  it can be a list, a dict or null, and also a number or a boolean.
\<close>

theorem phase2_unwraps_to_non_string:
  assumes "cf_get st nbobj (custom_field_name a) = JStr s" and "s \<noteq> []"
    and "compute_fix loads a st nbobj = (evs, Inr (True, fixed_value))"
  shows "compute_fix loads a st nbobj = unwrap_actual_json loads (JStr s) None (max_iterations a)
         \<and> \<not> isinstance fixed_value [TStr]"
proof
  show "compute_fix loads a st nbobj = unwrap_actual_json loads (JStr s) None (max_iterations a)"
    using assms(1,2) by (simp add: compute_fix_def)
  show "\<not> isinstance fixed_value [TStr]"
    using compute_fix_result [OF assms(3)] by simp
qed

theorem phase2_unwraps_to_non_string_witness:
  "cf_get example_store 5 (custom_field_name (default_args ''cf'')) = JStr (dumps_str ''{}'')
   \<and> dumps_str ''{}'' \<noteq> []
   \<and> compute_fix loads_fragment (default_args ''cf'') example_store 5
       = unwrap_actual_json loads_fragment (JStr (dumps_str ''{}'')) None 10
   \<and> \<not> isinstance (JObj []) [TStr]"
proof -
  let ?a = "default_args ''cf''"
  have raw: "cf_get example_store 5 (custom_field_name ?a) = JStr (dumps_str ''{}'')"
    by code_simp
  have nonempty: "dumps_str ''{}'' \<noteq> []" by (simp add: dumps_str_def)
  have fixed: "compute_fix loads_fragment ?a example_store 5
      = ([Decode (JStr (dumps_str ''{}'')), Decode (JStr ''{}'')], Inr (True, JObj []))"
    by code_simp
  have bound: "max_iterations ?a = 10" by (simp add: default_args_def)
  show ?thesis
    using raw nonempty bound phase2_unwraps_to_non_string [OF raw nonempty fixed] by simp
qed

text \<open>
  The claim C1 as stated fails: the raw value \<^verbatim>\<open>"true"\<close> is a non-empty string, the unwrap
  succeeds, and the fixed value is the boolean \<^verbatim>\<open>True\<close>, which is none of the expected
  types; in apply mode this boolean is the value sent to the store.
\<close>

theorem phase2_fixed_value_counterexample:
  "cf_get example_store 1 ''cf'' = JStr ''true''
   \<and> compute_fix loads_fragment (default_args ''cf'') example_store 1
       = ([Decode (JStr ''true'')], Inr (True, JBool True))
   \<and> \<not> isinstance (JBool True) (expected_types (default_args ''cf''))
   \<and> fst (fix_netbox_json_field loads_fragment accept_all
        ((default_args ''cf'')\<lparr>make_changes := True\<rparr>) example_store [1])
       = [Decode (JStr ''true''), Update 1 ''cf'' (JBool True)]"
  by code_simp

text \<open>
  C2, as the code has it. After a run in apply mode that returns, every record of the
  updated list holds in the store a value that is not a string. On a second run over the
  same record set such a record is a candidate again exactly when that value is neither
  null nor of one of the expected types, which is the case for a number or a boolean.
\<close>

theorem fixed_records_hold_non_strings:
  assumes "make_changes a"
    and "fix_netbox_json_field loads rejects a st recordset
           = (tr, st', Inr (nbobj_updated, nbobj_not_updated))"
    and "nbobj \<in> set nbobj_updated"
  shows "\<not> isinstance (cf_get st' nbobj (custom_field_name a)) [TStr]
         \<and> (nbobj \<in> set (classify a st' recordset []) \<longleftrightarrow>
              cf_get st' nbobj (custom_field_name a) \<noteq> JNull
              \<and> \<not> isinstance (cf_get st' nbobj (custom_field_name a)) (expected_types a))"
proof -
  from assms(2) have run:
    "repair loads rejects a (classify a st recordset []) [] st [] []
       = (tr, st', Inr (nbobj_updated, nbobj_not_updated))"
    by (simp add: fix_netbox_json_field_def)
  have "\<forall>k\<in>set []. \<not> isinstance (cf_get st k (custom_field_name a)) [TStr]" by simp
  from repair_updated_not_str [OF assms(1) this run] assms(3)
  have not_str: "\<not> isinstance (cf_get st' nbobj (custom_field_name a)) [TStr]" by blast
  from repair_shuffles [OF run]
  have "classify a st recordset [] \<in> shuffles nbobj_updated nbobj_not_updated" by simp
  from set_shuffles [OF this] assms(3) have "nbobj \<in> set (classify a st recordset [])" by simp
  then have "nbobj \<in> set recordset" by (simp add: classify_filter)
  then have "nbobj \<in> set (classify a st' recordset []) \<longleftrightarrow> bad_value a st' nbobj"
    by (simp add: classify_filter)
  with not_str show ?thesis by (simp add: bad_value_def)
qed

theorem fixed_records_hold_non_strings_witness:
  "make_changes ((default_args ''cf'')\<lparr>make_changes := True\<rparr>)
   \<and> snd (snd (fix_netbox_json_field loads_fragment accept_all
        ((default_args ''cf'')\<lparr>make_changes := True\<rparr>) example_store [1, 2, 5]))
       = Inr ([1, 5], [2])
   \<and> \<not> isinstance (cf_get (fst (snd (fix_netbox_json_field loads_fragment accept_all
        ((default_args ''cf'')\<lparr>make_changes := True\<rparr>) example_store [1, 2, 5]))) 5 ''cf'') [TStr]"
proof -
  let ?a = "(default_args ''cf'')\<lparr>make_changes := True\<rparr>"
  let ?run = "fix_netbox_json_field loads_fragment accept_all ?a example_store [1, 2, 5]"
  have apply_mode: "make_changes ?a" by simp
  have res: "snd (snd ?run) = Inr ([1, 5], [2])" by code_simp
  then have run: "?run = (fst ?run, fst (snd ?run), Inr ([1, 5], [2]))"
    by (metis prod.collapse)
  have member: "(5::nat) \<in> set [1, 5]" by simp
  have name: "custom_field_name ?a = ''cf''" by (simp add: default_args_def)
  show ?thesis
    using apply_mode res name fixed_records_hold_non_strings [OF apply_mode run member]
    by simp
qed

text \<open>
  The claim C2 as stated fails: record 1 holds the text \<^verbatim>\<open>true\<close>; the first run in apply
  mode fixes it to the boolean \<^verbatim>\<open>True\<close> and lists it as updated; classified again on the
  store the first run left, it is a candidate.
\<close>

theorem second_run_candidates_counterexample:
  "snd (snd (fix_netbox_json_field loads_fragment accept_all
        ((default_args ''cf'')\<lparr>make_changes := True\<rparr>) example_store [1]))
     = Inr ([1], [])
   \<and> cf_get (fst (snd (fix_netbox_json_field loads_fragment accept_all
        ((default_args ''cf'')\<lparr>make_changes := True\<rparr>) example_store [1]))) 1 ''cf''
       = JBool True
   \<and> classify ((default_args ''cf'')\<lparr>make_changes := True\<rparr>)
        (fst (snd (fix_netbox_json_field loads_fragment accept_all
          ((default_args ''cf'')\<lparr>make_changes := True\<rparr>) example_store [1]))) [1] []
       = [1]"
  by code_simp

text \<open>
  C4 fails on the code. Record 4 holds the number 5 and record 5 a text that unwraps to an
  object. Both are candidates. The run calls \<^verbatim>\<open>json.loads\<close> on the number, the
  \<^verbatim>\<open>TypeError\<close> leaves \<^verbatim>\<open>fix_netbox_json_field\<close>, and record 5 is never looked at: no
  result lists are returned.
\<close>

theorem number_candidate_aborts_batch:
  "classify (default_args ''cf'') example_store [4, 5] [] = [4, 5]
   \<and> fst (fix_netbox_json_field loads_fragment accept_all (default_args ''cf'')
        example_store [4, 5]) = [Decode (JInt 5)]
   \<and> snd (snd (fix_netbox_json_field loads_fragment accept_all (default_args ''cf'')
        example_store [4, 5])) = Inl TypeError"
  by code_simp

text \<open>
  C8, as the code has it. For a candidate whose raw value is the empty string, with
  \<^verbatim>\<open>replace_empty_string_with_null\<close> set, the fix is \<^verbatim>\<open>None\<close> and no call of \<^verbatim>\<open>json.loads\<close>
  is made. In a dry run the record is appended to the updated list. In apply mode
  \<^verbatim>\<open>Record.update\<close> is called with \<^verbatim>\<open>None\<close>; the record is appended to the updated list
  when the store accepts the request and to the not-updated list when the store rejects
  it. The rest of the loop goes on from there, and the record is in that list when the
  run returns.
\<close>

theorem empty_string_fixed_as_null:
  assumes "cf_get st nbobj (custom_field_name a) = JStr []"
    and "replace_empty_string_with_null a"
  shows "compute_fix loads a st nbobj = ([], Inr (True, JNull))
    \<and> repair loads rejects a (nbobj # rest) tr st u n =
        (if \<not> make_changes a then repair loads rejects a rest tr st (u @ [nbobj]) n
         else if rejects nbobj JNull then
           repair loads rejects a rest (tr @ [Update nbobj (custom_field_name a) JNull]) st
             u (n @ [nbobj])
         else
           repair loads rejects a rest (tr @ [Update nbobj (custom_field_name a) JNull])
             (st(nbobj := AList.update (custom_field_name a) JNull (st nbobj)))
             (u @ [nbobj]) n)
    \<and> (repair loads rejects a (nbobj # rest) tr st u n = (tr', st', Inr (u', n')) \<longrightarrow>
         (if make_changes a \<and> rejects nbobj JNull then nbobj \<in> set n' else nbobj \<in> set u'))"
proof -
  have null_fix: "compute_fix loads a st nbobj = ([], Inr (True, JNull))"
    using assms by (simp add: compute_fix_def)
  have step: "repair loads rejects a (nbobj # rest) tr st u n =
        (if \<not> make_changes a then repair loads rejects a rest tr st (u @ [nbobj]) n
         else if rejects nbobj JNull then
           repair loads rejects a rest (tr @ [Update nbobj (custom_field_name a) JNull]) st
             u (n @ [nbobj])
         else
           repair loads rejects a rest (tr @ [Update nbobj (custom_field_name a) JNull])
             (st(nbobj := AList.update (custom_field_name a) JNull (st nbobj)))
             (u @ [nbobj]) n)"
    unfolding repair_step [OF null_fix] by simp
  have final: "if make_changes a \<and> rejects nbobj JNull then nbobj \<in> set n' else nbobj \<in> set u'"
    if run: "repair loads rejects a (nbobj # rest) tr st u n = (tr', st', Inr (u', n'))"
  proof (cases "make_changes a \<and> rejects nbobj JNull")
    case True
    with run have
      "repair loads rejects a rest (tr @ [Update nbobj (custom_field_name a) JNull]) st
         u (n @ [nbobj]) = (tr', st', Inr (u', n'))"
      unfolding step by simp
    from repair_shuffles [OF this] True show ?thesis by auto
  next
    case False
    with run obtain tr0 st0 where
      "repair loads rejects a rest tr0 st0 (u @ [nbobj]) n = (tr', st', Inr (u', n'))"
      unfolding step by (metis (full_types))
    from repair_shuffles [OF this] False show ?thesis by auto
  qed
  from null_fix step final show ?thesis by blast
qed

theorem empty_string_fixed_as_null_witness:
  "cf_get example_store 3 ''cf'' = JStr []
   \<and> compute_fix loads_fragment
        ((default_args ''cf'')\<lparr>make_changes := True, replace_empty_string_with_null := True\<rparr>)
        example_store 3 = ([], Inr (True, JNull))
   \<and> fst (fix_netbox_json_field loads_fragment accept_all
        ((default_args ''cf'')\<lparr>make_changes := True, replace_empty_string_with_null := True\<rparr>)
        example_store [3]) = [Update 3 ''cf'' JNull]
   \<and> snd (snd (fix_netbox_json_field loads_fragment accept_all
        ((default_args ''cf'')\<lparr>make_changes := True, replace_empty_string_with_null := True\<rparr>)
        example_store [3])) = Inr ([3], [])"
proof -
  let ?a = "(default_args ''cf'')\<lparr>make_changes := True, replace_empty_string_with_null := True\<rparr>"
  have name: "custom_field_name ?a = ''cf''" by (simp add: default_args_def)
  have raw: "cf_get example_store 3 (custom_field_name ?a) = JStr []" by code_simp
  have flag: "replace_empty_string_with_null ?a" by simp
  have tr: "fst (fix_netbox_json_field loads_fragment accept_all ?a example_store [3])
      = [Update 3 ''cf'' JNull]" by code_simp
  have res: "snd (snd (fix_netbox_json_field loads_fragment accept_all ?a example_store [3]))
      = Inr ([3], [])" by code_simp
  show ?thesis
    using raw name tr res
      empty_string_fixed_as_null [OF raw flag, of loads_fragment accept_all "[]" "[]" "[]" "[]"]
    by simp
qed

text \<open>
  The claim C8 as stated fails in apply mode when the store rejects the write: the record
  with the empty string is then in the not-updated list.
\<close>

theorem empty_string_rejected_counterexample:
  "cf_get example_store 3 ''cf'' = JStr []
   \<and> fst (fix_netbox_json_field loads_fragment reject_all
        ((default_args ''cf'')\<lparr>make_changes := True, replace_empty_string_with_null := True\<rparr>)
        example_store [3]) = [Update 3 ''cf'' JNull]
   \<and> snd (snd (fix_netbox_json_field loads_fragment reject_all
        ((default_args ''cf'')\<lparr>make_changes := True, replace_empty_string_with_null := True\<rparr>)
        example_store [3])) = Inr ([], [3])"
  by code_simp

end
